theory Spec2Isabelle
  imports Main "HOL-Library.Word"
begin

section \<open>Data model of \<open>src/emulator.ts\<close>\<close>

text \<open>
  The class \<open>Emulator\<close> is modelled as a record that every method takes and returns.
  Strings are lists of 8-bit characters (the names, paths and commands of the program are
  ASCII), a \<open>Uint8Array\<close> is a list of bytes.
\<close>

type_synonym byte = "8 word"

text \<open>The union type \<open>RetroArchCommand\<close>, one constructor per literal.\<close>

datatype RetroArchCommand =
    FAST_FORWARD
  | FAST_FORWARD_HOLD
  | LOAD_STATE
  | SAVE_STATE
  | FULLSCREEN_TOGGLE
  | QUIT
  | STATE_SLOT_PLUS
  | STATE_SLOT_MINUS
  | REWIND
  | MOVIE_RECORD_TOGGLE
  | PAUSE_TOGGLE
  | FRAMEADVANCE
  | RESET
  | SHADER_NEXT
  | SHADER_PREV
  | CHEAT_INDEX_PLUS
  | CHEAT_INDEX_MINUS
  | CHEAT_TOGGLE
  | SCREENSHOT
  | MUTE
  | NETPLAY_FLIP
  | SLOWMOTION
  | VOLUME_UP
  | VOLUME_DOWN
  | OVERLAY_NEXT
  | DISK_EJECT_TOGGLE
  | DISK_NEXT
  | DISK_PREV
  | GRAB_MOUSE_TOGGLE
  | MENU_TOGGLE

text \<open>The string literal each member of the union stands for.\<close>

fun command_text :: "RetroArchCommand \<Rightarrow> string" where
  "command_text FAST_FORWARD = ''FAST_FORWARD''"
| "command_text FAST_FORWARD_HOLD = ''FAST_FORWARD_HOLD''"
| "command_text LOAD_STATE = ''LOAD_STATE''"
| "command_text SAVE_STATE = ''SAVE_STATE''"
| "command_text FULLSCREEN_TOGGLE = ''FULLSCREEN_TOGGLE''"
| "command_text QUIT = ''QUIT''"
| "command_text STATE_SLOT_PLUS = ''STATE_SLOT_PLUS''"
| "command_text STATE_SLOT_MINUS = ''STATE_SLOT_MINUS''"
| "command_text REWIND = ''REWIND''"
| "command_text MOVIE_RECORD_TOGGLE = ''MOVIE_RECORD_TOGGLE''"
| "command_text PAUSE_TOGGLE = ''PAUSE_TOGGLE''"
| "command_text FRAMEADVANCE = ''FRAMEADVANCE''"
| "command_text RESET = ''RESET''"
| "command_text SHADER_NEXT = ''SHADER_NEXT''"
| "command_text SHADER_PREV = ''SHADER_PREV''"
| "command_text CHEAT_INDEX_PLUS = ''CHEAT_INDEX_PLUS''"
| "command_text CHEAT_INDEX_MINUS = ''CHEAT_INDEX_MINUS''"
| "command_text CHEAT_TOGGLE = ''CHEAT_TOGGLE''"
| "command_text SCREENSHOT = ''SCREENSHOT''"
| "command_text MUTE = ''MUTE''"
| "command_text NETPLAY_FLIP = ''NETPLAY_FLIP''"
| "command_text SLOWMOTION = ''SLOWMOTION''"
| "command_text VOLUME_UP = ''VOLUME_UP''"
| "command_text VOLUME_DOWN = ''VOLUME_DOWN''"
| "command_text OVERLAY_NEXT = ''OVERLAY_NEXT''"
| "command_text DISK_EJECT_TOGGLE = ''DISK_EJECT_TOGGLE''"
| "command_text DISK_NEXT = ''DISK_NEXT''"
| "command_text DISK_PREV = ''DISK_PREV''"
| "command_text GRAB_MOUSE_TOGGLE = ''GRAB_MOUSE_TOGGLE''"
| "command_text MENU_TOGGLE = ''MENU_TOGGLE''"

text \<open>
  \<open>encoder.encode\<close> of \<open>TextEncoder\<close> yields UTF-8. On a string of ASCII characters that
  is one byte per character, the character's code; every command text is ASCII
  (lemma \<open>command_text_ascii\<close> below).
\<close>

definition encode :: "string \<Rightarrow> byte list" where
  "encode s = map of_char s"

datatype GameStatus = initial | paused | running

datatype ProcessStatus = terminated

text \<open>What a method can throw: a \<open>TypeError\<close> of the language, or \<open>new Error('fs timeout')\<close>.\<close>

datatype error = TypeError | FsTimeout

text \<open>
  The calls a method makes on the instantiated module and on the page, in the order made.
  Reads of the file system are not calls of this log (they come from the environment, see
  the poller), and neither are the unlinks of \<open>clearStateFile\<close>, whose outcome the method
  discards.
\<close>

datatype call =
    EmscriptenExit int
  | FsUnmount string
  | RemoveAllEventListeners
  | ElementRemove
  | SetCanvasSize int int
  | FsMkdirTree string
  | FsWriteFile string "byte list"

record asset =
  fileName :: string
  fileContent :: "byte list"

text \<open>A scalar of a configuration object; numbers are taken to be integers.\<close>

datatype scalar = SBool bool | SNum int | SStr string

record options =
  rom :: "asset list"
  bios :: "asset list"
  core_name :: string
  retroarch :: "(string \<times> scalar) list"

text \<open>
  The fields of \<open>Emulator\<close>. \<open>emscripten\<close> is \<open>undefined\<close> until \<open>setupEmscripten\<close> has run:
  the field says whether it is set. \<open>processStatus\<close> is \<open>undefined\<close> until \<open>exit\<close> assigns it.
  \<open>calls\<close> records the calls made on the module and the page.
\<close>

record emulator =
  opts :: options
  emscripten :: bool
  messageQueue :: "(byte list \<times> nat) list"
  gameStatus :: GameStatus
  processStatus :: "ProcessStatus option"
  calls :: "call list"

text \<open>The constructor and the field initialisers.\<close>

definition new_Emulator :: "options \<Rightarrow> emulator" where
  "new_Emulator os =
     \<lparr>opts = os, emscripten = False, messageQueue = [], gameStatus = initial,
      processStatus = None, calls = []\<rparr>"

section \<open>Command channel\<close>

text \<open>\<open>sendCommand\<close>: encode the command and a newline, push the pair with cursor 0.\<close>

definition sendCommand :: "RetroArchCommand \<Rightarrow> emulator \<Rightarrow> emulator" where
  "sendCommand msg s =
     (let bytes = encode (command_text msg @ [CHR 0x0A])
      in s\<lparr>messageQueue := messageQueue s @ [(bytes, 0)]\<rparr>)"

text \<open>
  \<open>stdin\<close>: the loop over the queue. An entry whose cursor has reached the length of its
  bytes is shifted out and the loop goes on; otherwise the cursor of the head is advanced
  and the byte under the old cursor is returned. \<open>None\<close> is the \<open>null\<close> returned when the
  loop ends with an empty queue.
\<close>

fun stdin_queue :: "(byte list \<times> nat) list \<Rightarrow> byte option \<times> (byte list \<times> nat) list" where
  "stdin_queue [] = (None, [])"
| "stdin_queue ((msg, index) # rest) =
     (if index \<ge> length msg then stdin_queue rest
      else (Some (msg ! index), (msg, index + 1) # rest))"

definition stdin :: "emulator \<Rightarrow> byte option \<times> emulator" where
  "stdin s = (let (r, q) = stdin_queue (messageQueue s) in (r, s\<lparr>messageQueue := q\<rparr>))"

text \<open>\<open>n\<close> successive calls of \<open>stdin\<close>, with the values returned, in order.\<close>

fun stdin_times :: "nat \<Rightarrow> emulator \<Rightarrow> byte option list \<times> emulator" where
  "stdin_times 0 s = ([], s)"
| "stdin_times (Suc n) s =
     (let (r, s1) = stdin s; (rs, s2) = stdin_times n s1 in (r # rs, s2))"

section \<open>Lifecycle controller\<close>

definition resume :: "emulator \<Rightarrow> emulator" where
  "resume s =
     (let s1 = (if gameStatus s = paused then sendCommand PAUSE_TOGGLE s else s)
      in s1\<lparr>gameStatus := running\<rparr>)"

definition restart :: "emulator \<Rightarrow> emulator" where
  "restart s = resume (sendCommand RESET s)"

definition pause :: "emulator \<Rightarrow> emulator" where
  "pause s =
     (let s1 = (if gameStatus s = running then sendCommand PAUSE_TOGGLE s else s)
      in s1\<lparr>gameStatus := paused\<rparr>)"

text \<open>
  \<open>exit\<close>: the assignment to \<open>processStatus\<close>, the three calls on the module when it is
  set, then \<open>cleanupDOM\<close>. The class never assigns \<open>previousActiveElement\<close>, so the
  optional call \<open>previousActiveElement?.focus?.()\<close> does nothing.
\<close>

definition cleanupDOM :: "emulator \<Rightarrow> emulator" where
  "cleanupDOM s = s\<lparr>calls := calls s @ [ElementRemove]\<rparr>"

definition exit :: "int \<Rightarrow> emulator \<Rightarrow> emulator" where
  "exit statusCode s =
     (let s1 = s\<lparr>processStatus := Some terminated\<rparr>;
          s2 = (if emscripten s1
                then s1\<lparr>calls := calls s1 @
                       [EmscriptenExit statusCode, FsUnmount ''/home'', RemoveAllEventListeners]\<rparr>
                else s1)
      in cleanupDOM s2)"

text \<open>
  \<open>resize\<close> destructures \<open>this.emscripten\<close>, which throws a \<open>TypeError\<close> when the field is
  \<open>undefined\<close>.
\<close>

definition resize :: "int \<Rightarrow> int \<Rightarrow> emulator \<Rightarrow> error + emulator" where
  "resize width height s =
     (if \<not> emscripten s then Inl TypeError
      else Inr (s\<lparr>calls := calls s @ [SetCanvasSize width height]\<rparr>))"

section \<open>Canonical path derivation\<close>

text \<open>
  \<open>String.prototype.lastIndexOf\<close> for a search string of one character: the index of the
  last occurrence, or \<open>-1\<close>.
\<close>

fun lastIndexOf :: "char \<Rightarrow> string \<Rightarrow> int" where
  "lastIndexOf c [] = - 1"
| "lastIndexOf c (x # xs) =
     (let r = lastIndexOf c xs
      in if r \<ge> 0 then r + 1 else if x = c then 0 else - 1)"

text \<open>
  \<open>String.prototype.slice(start, end)\<close>: a negative index counts from the end of the
  string, both indices are clamped to the string, and an empty range gives the empty string.
\<close>

definition slice_js :: "int \<Rightarrow> int \<Rightarrow> string \<Rightarrow> string" where
  "slice_js start end s =
     (let len = int (length s);
          from = (if start < 0 then max (len + start) 0 else min start len);
          to = (if end < 0 then max (len + end) 0 else min end len)
      in take (nat (to - from)) (drop (nat from) s))"

definition raUserdataDir :: string where
  "raUserdataDir = ''/home/web_user/retroarch/userdata/''"

definition raConfigPath :: string where
  "raConfigPath = raUserdataDir @ ''retroarch.cfg''"

text \<open>
  \<open>coreFullNameMap\<close> is imported from \<open>./constants\<close>; the table is a parameter here. A core
  name that is not a key of the table reads as \<open>undefined\<close>, which the template literal
  prints as the text \<open>undefined\<close>.
\<close>

definition coreFullName :: "(string \<rightharpoonup> string) \<Rightarrow> string \<Rightarrow> string" where
  "coreFullName coreFullNameMap name =
     (case coreFullNameMap name of None \<Rightarrow> ''undefined'' | Some full \<Rightarrow> full)"

text \<open>
  The getter \<open>stateFileName\<close>. Destructuring the first element of an empty \<open>rom\<close> array
  throws a \<open>TypeError\<close>.
\<close>

definition stateFileName :: "(string \<rightharpoonup> string) \<Rightarrow> emulator \<Rightarrow> error + string" where
  "stateFileName coreFullNameMap s =
     (case rom (opts s) of
        [] \<Rightarrow> Inl TypeError
      | r # _ \<Rightarrow>
          (let baseName = slice_js 0 (lastIndexOf (CHR ''.'') (fileName r)) (fileName r)
           in Inr (raUserdataDir @ ''states/'' @
                   coreFullName coreFullNameMap (core_name (opts s)) @ ''/'' @
                   baseName @ ''.state'')))"

definition stateThumbnailFileName :: "(string \<rightharpoonup> string) \<Rightarrow> emulator \<Rightarrow> error + string" where
  "stateThumbnailFileName coreFullNameMap s =
     (case stateFileName coreFullNameMap s of
        Inl e \<Rightarrow> Inl e
      | Inr p \<Rightarrow> Inr (p @ ''.png''))"

section \<open>File-ready poller\<close>

text \<open>
  The local variables of \<open>waitForEmscriptenFile\<close>, and the list of the times passed to
  \<open>delay\<close>, in order. \<open>buffer\<close> is \<open>undefined\<close> until a read has succeeded.
\<close>

record poll_state =
  buffer :: "byte list option"
  isFinished :: bool
  retryTimes :: nat
  delays :: "nat list"

definition poll_init :: poll_state where
  "poll_init = \<lparr>buffer = None, isFinished = False, retryTimes = 0, delays = []\<rparr>"

text \<open>
  \<open>Math.min(100 * 2 ** retryTimes, 1000)\<close>. The source computes in doubles, where
  \<open>2 ** retryTimes\<close> is exact up to \<open>2 ** 1023\<close> and infinite above; the minimum with
  1000 is the same as over the natural numbers.
\<close>

definition delayTime :: "nat \<Rightarrow> nat" where
  "delayTime k = min (100 * 2 ^ k) 1000"

text \<open>
  One turn of the loop. \<open>rd k\<close> is what \<open>FS.readFile(fileName).buffer\<close> gives at the turn
  with \<open>retryTimes = k\<close>: \<open>None\<close> when the read throws (the catch block only logs it).
  With \<open>buffer\<close> undefined, \<open>buffer?.byteLength > 0\<close> is false.
\<close>

definition poll_step :: "(nat \<Rightarrow> byte list option) \<Rightarrow> poll_state \<Rightarrow> poll_state" where
  "poll_step rd st =
     (let st1 = st\<lparr>delays := delays st @ [delayTime (retryTimes st)]\<rparr>;
          st2 = (case rd (retryTimes st) of
                   None \<Rightarrow> st1
                 | Some newBuffer \<Rightarrow>
                     st1\<lparr>isFinished :=
                           (case buffer st1 of
                              None \<Rightarrow> False
                            | Some b \<Rightarrow> length b > 0 \<and> length b = length newBuffer),
                         buffer := Some newBuffer\<rparr>)
      in st2\<lparr>retryTimes := retryTimes st2 + 1\<rparr>)"

function poll_loop :: "nat \<Rightarrow> (nat \<Rightarrow> byte list option) \<Rightarrow> poll_state \<Rightarrow> poll_state" where
  "poll_loop maxRetries rd st =
     (if retryTimes st \<le> maxRetries \<and> \<not> isFinished st
      then poll_loop maxRetries rd (poll_step rd st)
      else st)"
  by pat_completeness auto
termination
  by (relation "measure (\<lambda>(maxRetries, rd, st). Suc maxRetries - retryTimes st)")
     (auto simp: poll_step_def Let_def split: option.splits)

declare poll_loop.simps [simp del]

text \<open>
  \<open>waitForEmscriptenFile\<close> with the constant \<open>maxRetries\<close> as a parameter. The result is
  paired with the final values of the locals, which hold the number of reads made and the
  delays waited.
\<close>

definition waitForEmscriptenFile_max ::
  "nat \<Rightarrow> (nat \<Rightarrow> byte list option) \<Rightarrow> emulator \<Rightarrow> (error + byte list option) \<times> poll_state" where
  "waitForEmscriptenFile_max maxRetries rd s =
     (if \<not> emscripten s then (Inl TypeError, poll_init)
      else (let st = poll_loop maxRetries rd poll_init
            in (if \<not> isFinished st then Inl FsTimeout else Inr (buffer st), st)))"

definition waitForEmscriptenFile ::
  "(nat \<Rightarrow> byte list option) \<Rightarrow> emulator \<Rightarrow> (error + byte list option) \<times> poll_state" where
  "waitForEmscriptenFile rd s = waitForEmscriptenFile_max 30 rd s"

section \<open>Saving and loading a state\<close>

text \<open>
  \<open>clearStateFile\<close> destructures \<open>this.emscripten\<close> outside its \<open>try\<close> block, which throws
  a \<open>TypeError\<close> when the field is \<open>undefined\<close>. Everything else happens inside the block,
  the evaluation of the getter \<open>stateFileName\<close> included, and the empty \<open>catch\<close> discards
  whatever is thrown there; the unlinks touch only the files of the module.
\<close>

definition clearStateFile :: "emulator \<Rightarrow> error + emulator" where
  "clearStateFile s = (if \<not> emscripten s then Inl TypeError else Inr s)"

text \<open>
  Truthiness of \<open>this.options.retroarch.savestate_thumbnail_enable\<close>: a missing key reads
  as \<open>undefined\<close>.
\<close>

fun truthy :: "scalar option \<Rightarrow> bool" where
  "truthy None = False"
| "truthy (Some (SBool b)) = b"
| "truthy (Some (SNum n)) = (n \<noteq> 0)"
| "truthy (Some (SStr t)) = (t \<noteq> [])"

record saved =
  state :: "byte list option"
  thumbnail :: "byte list option"

text \<open>
  \<open>saveState\<close>. The parameter \<open>readFile path k\<close> is what reading \<open>path\<close> gives at turn \<open>k\<close>
  of a poll. The value \<open>None\<close> in the result is the \<open>undefined\<close> of the bare \<open>return\<close>
  behind the guard \<open>if (!this.emscripten)\<close>. The two polls of \<open>Promise.all\<close> read different
  files; the call fails when one of them fails. The record returned is the one at the end
  of the call when no other method runs during the waits.
\<close>

definition saveState ::
  "(string \<rightharpoonup> string) \<Rightarrow> (string \<Rightarrow> nat \<Rightarrow> byte list option) \<Rightarrow> emulator
     \<Rightarrow> error + (saved option \<times> emulator)" where
  "saveState coreFullNameMap readFile s =
     (case clearStateFile s of
        Inl e \<Rightarrow> Inl e
      | Inr s1 \<Rightarrow>
          if \<not> emscripten s1 then Inr (None, s1)
          else
            (let s2 = sendCommand SAVE_STATE s1;
                 savestateThumbnailEnable =
                   truthy (map_of (retroarch (opts s2)) ''savestate_thumbnail_enable'')
             in case stateFileName coreFullNameMap s2 of
                  Inl e \<Rightarrow> Inl e
                | Inr p \<Rightarrow>
                    if savestateThumbnailEnable then
                      (case stateThumbnailFileName coreFullNameMap s2 of
                         Inl e \<Rightarrow> Inl e
                       | Inr t \<Rightarrow>
                           (case fst (waitForEmscriptenFile (readFile p) s2) of
                              Inl e \<Rightarrow> Inl e
                            | Inr stateBuffer \<Rightarrow>
                                (case fst (waitForEmscriptenFile (readFile t) s2) of
                                   Inl e \<Rightarrow> Inl e
                                 | Inr stateThumbnailBuffer \<Rightarrow>
                                     (case clearStateFile s2 of
                                        Inl e \<Rightarrow> Inl e
                                      | Inr s3 \<Rightarrow>
                                          Inr (Some \<lparr>state = stateBuffer,
                                                     thumbnail = stateThumbnailBuffer\<rparr>, s3)))))
                    else
                      (case fst (waitForEmscriptenFile (readFile p) s2) of
                         Inl e \<Rightarrow> Inl e
                       | Inr stateBuffer \<Rightarrow>
                           (case clearStateFile s2 of
                              Inl e \<Rightarrow> Inl e
                            | Inr s3 \<Rightarrow>
                                Inr (Some \<lparr>state = stateBuffer, thumbnail = None\<rparr>, s3)))))"

text \<open>\<open>loadState\<close>, with the bytes of the blob as the argument.\<close>

definition loadState ::
  "(string \<rightharpoonup> string) \<Rightarrow> (string \<Rightarrow> nat \<Rightarrow> byte list option) \<Rightarrow> byte list \<Rightarrow> emulator
     \<Rightarrow> error + emulator" where
  "loadState coreFullNameMap readFile blob s =
     (case clearStateFile s of
        Inl e \<Rightarrow> Inl e
      | Inr s1 \<Rightarrow>
          if emscripten s1 then
            (case stateFileName coreFullNameMap s1 of
               Inl e \<Rightarrow> Inl e
             | Inr p \<Rightarrow>
                 (let s2 = s1\<lparr>calls := calls s1 @ [FsWriteFile p blob]\<rparr>
                  in case fst (waitForEmscriptenFile (readFile p) s2) of
                       Inl e \<Rightarrow> Inl e
                     | Inr _ \<Rightarrow> Inr (sendCommand LOAD_STATE s2)))
          else Inr s1)"

section \<open>Config serializer\<close>

text \<open>The text a template literal gives for a scalar.\<close>

fun string_of_nat :: "nat \<Rightarrow> string" where
  "string_of_nat n =
     (if n < 10 then [char_of (48 + n)]
      else string_of_nat (n div 10) @ [char_of (48 + n mod 10)])"

declare string_of_nat.simps [simp del]

definition string_of_int :: "int \<Rightarrow> string" where
  "string_of_int i = (if i < 0 then CHR ''-'' # string_of_nat (nat (- i)) else string_of_nat (nat i))"

fun toString :: "scalar \<Rightarrow> string" where
  "toString (SBool b) = (if b then ''true'' else ''false'')"
| "toString (SNum i) = string_of_int i"
| "toString (SStr t) = t"

text \<open>
  The loop \<open>for (const key in config)\<close> of \<open>writeConfigFile\<close>: every value is replaced by
  its text between two pairs of underscores. A configuration object is the list of its
  entries in the order of enumeration.
\<close>

definition wrap_config :: "(string \<times> scalar) list \<Rightarrow> (string \<times> scalar) list" where
  "wrap_config config = map (\<lambda>(key, v). (key, SStr (''__'' @ toString v @ ''__''))) config"

text \<open>
  \<open>ini.stringify\<close> belongs to the package \<open>ini\<close>, a dependency that is not part of the
  sources. What follows is its encoder for an object whose values are scalars, with the
  options \<open>whitespace: true\<close> and \<open>platform: 'linux'\<close> that \<open>writeConfigFile\<close> passes: one line
  \<open>safe(key) = safe(value)\<close> per entry, each ended by a line feed. \<open>safe\<close> prints through
  \<open>JSON.stringify\<close> a string that holds \<open>=\<close>, a carriage return or a line feed, starts with
  \<open>[\<close>, is quoted, or has white space at an end; in any other string it escapes \<open>;\<close> and
  \<open>#\<close> with a backslash.
\<close>

definition is_space :: "char \<Rightarrow> bool" where
  "is_space c = (c \<in> set [CHR 0x09, CHR 0x0A, CHR 0x0B, CHR 0x0C, CHR 0x0D, CHR 0x20])"

definition trim :: "string \<Rightarrow> string" where
  "trim t = rev (dropWhile is_space (rev (dropWhile is_space t)))"

definition hex_digit :: "nat \<Rightarrow> char" where
  "hex_digit n = ''0123456789abcdef'' ! (n mod 16)"

definition json_char :: "char \<Rightarrow> string" where
  "json_char c =
     (if c = CHR 0x22 then [CHR 0x5C, CHR 0x22]
      else if c = CHR 0x5C then [CHR 0x5C, CHR 0x5C]
      else if c = CHR 0x08 then [CHR 0x5C, CHR ''b'']
      else if c = CHR 0x0C then [CHR 0x5C, CHR ''f'']
      else if c = CHR 0x0A then [CHR 0x5C, CHR ''n'']
      else if c = CHR 0x0D then [CHR 0x5C, CHR ''r'']
      else if c = CHR 0x09 then [CHR 0x5C, CHR ''t'']
      else if (of_char c :: nat) < 32
        then [CHR 0x5C, CHR ''u'', CHR ''0'', CHR ''0'',
              hex_digit (of_char c div 16), hex_digit (of_char c)]
      else [c])"

definition JSON_stringify :: "string \<Rightarrow> string" where
  "JSON_stringify t = CHR 0x22 # concat (map json_char t) @ [CHR 0x22]"

definition isQuoted :: "string \<Rightarrow> bool" where
  "isQuoted val =
     (val \<noteq> [] \<and>
      ((hd val = CHR 0x22 \<and> last val = CHR 0x22) \<or> (hd val = CHR 0x27 \<and> last val = CHR 0x27)))"

definition safe :: "string \<Rightarrow> string" where
  "safe val =
     (if (\<exists>c \<in> set val. c = CHR ''='' \<or> c = CHR 0x0D \<or> c = CHR 0x0A)
         \<or> (val \<noteq> [] \<and> hd val = CHR ''['')
         \<or> (length val > 1 \<and> isQuoted val)
         \<or> val \<noteq> trim val
      then JSON_stringify val
      else concat (map (\<lambda>c. if c = CHR '';'' \<or> c = CHR ''#'' then [CHR 0x5C, c] else [c]) val))"

text \<open>A value that is not a string is printed by \<open>JSON.stringify\<close>, which gives its text.\<close>

fun safe_scalar :: "scalar \<Rightarrow> string" where
  "safe_scalar (SStr t) = safe t"
| "safe_scalar v = toString v"

definition ini_stringify :: "(string \<times> scalar) list \<Rightarrow> string" where
  "ini_stringify config =
     concat (map (\<lambda>(k, val). safe k @ '' = '' @ safe_scalar val @ [CHR 0x0A]) config)"

text \<open>
  \<open>String.prototype.replaceAll\<close> for a search string and a replacement that holds no
  \<open>$\<close>: the matches are taken from left to right and do not overlap. An empty search
  string matches before every character and at the end.
\<close>

function replaceAll :: "string \<Rightarrow> string \<Rightarrow> string \<Rightarrow> string" where
  "replaceAll pat rep t =
     (if pat = [] then rep @ concat (map (\<lambda>c. c # rep) t)
      else if t = [] then []
      else if take (length pat) t = pat then rep @ replaceAll pat rep (drop (length pat) t)
      else hd t # replaceAll pat rep (tl t))"
  by pat_completeness auto
termination
  by (relation "measure (\<lambda>(pat, rep, t). length t)") auto

declare replaceAll.simps [simp del]

text \<open>The text \<open>writeConfigFile\<close> passes to \<open>FS.writeFile\<close>.\<close>

definition configContent :: "(string \<times> scalar) list \<Rightarrow> string" where
  "configContent config = replaceAll ''__'' [CHR 0x22] (ini_stringify (wrap_config config))"

text \<open>
  \<open>writeConfigFile\<close>. The loop changes the object it is given, so the changed object is
  returned with the record.
\<close>

definition writeConfigFile ::
  "string \<Rightarrow> (string \<times> scalar) list \<Rightarrow> emulator \<Rightarrow> error + ((string \<times> scalar) list \<times> emulator)" where
  "writeConfigFile path config s =
     (if \<not> emscripten s then Inl TypeError
      else
        (let dir = slice_js 0 (lastIndexOf (CHR ''/'') path) path;
             s1 = s\<lparr>calls := calls s @ [FsMkdirTree dir]\<rparr>;
             s2 = s1\<lparr>calls := calls s1 @ [FsWriteFile path (encode (configContent config))]\<rparr>
         in Inr (wrap_config config, s2)))"

text \<open>\<open>setupRaConfigFile\<close> passes \<open>this.options.retroarch\<close> itself, which the loop rewrites.\<close>

definition setupRaConfigFile :: "emulator \<Rightarrow> error + emulator" where
  "setupRaConfigFile s =
     (case writeConfigFile raConfigPath (retroarch (opts s)) s of
        Inl e \<Rightarrow> Inl e
      | Inr (config, s1) \<Rightarrow> Inr (s1\<lparr>opts := (opts s1)\<lparr>retroarch := config\<rparr>\<rparr>))"

section \<open>Runs of the command channel, inputs for the examples\<close>

text \<open>
  A run of the command channel is a list of calls, each \<open>sendCommand\<close> or \<open>stdin\<close>;
  \<open>run_ops\<close> performs them in order and collects what the calls of \<open>stdin\<close> return.
  \<open>pending\<close> is the bytes of a queue that no call has returned yet, \<open>delivered\<close> the bytes
  among the values returned, \<open>sent\<close> the bytes of the commands of a run, in the order of
  the calls. \<open>options0\<close> and \<open>launched0\<close> are an emulator for the examples: one ROM, the
  default configuration.
\<close>

datatype channel_op = Send RetroArchCommand | Poll

fun run_ops :: "channel_op list \<Rightarrow> emulator \<Rightarrow> byte option list \<times> emulator" where
  "run_ops [] s = ([], s)"
| "run_ops (Send msg # ops) s = run_ops ops (sendCommand msg s)"
| "run_ops (Poll # ops) s =
     (let (r, s1) = stdin s; (rs, s2) = run_ops ops s1 in (r # rs, s2))"

definition behind_front_untouched :: "(byte list \<times> nat) list \<Rightarrow> bool" where
  "behind_front_untouched q = list_all (\<lambda>(msg, index). index = 0) (tl q)"

definition pending :: "(byte list \<times> nat) list \<Rightarrow> byte list" where
  "pending q = concat (map (\<lambda>(msg, index). drop index msg) q)"

fun delivered :: "byte option list \<Rightarrow> byte list" where
  "delivered [] = []"
| "delivered (None # rs) = delivered rs"
| "delivered (Some b # rs) = b # delivered rs"

fun sent :: "channel_op list \<Rightarrow> byte list" where
  "sent [] = []"
| "sent (Send msg # ops) = encode (command_text msg @ [CHR 0x0A]) @ sent ops"
| "sent (Poll # ops) = sent ops"

definition options0 :: options where
  "options0 =
     \<lparr>rom = [\<lparr>fileName = ''pong1k.nes'', fileContent = [1, 2, 3]\<rparr>], bios = [],
      core_name = ''fceumm'',
      retroarch = [(''menu_driver'', SStr ''rgui''), (''rewind_enable'', SBool True),
        (''rgui_menu_color_theme'', SNum 4), (''savestate_thumbnail_enable'', SBool True)]\<rparr>"

definition launched0 :: emulator where
  "launched0 = (new_Emulator options0)\<lparr>emscripten := True, gameStatus := running\<rparr>"

text \<open>
  The queue entry of the pause command, an emulator paused after launch, a table of core
  names and a ROM without extension for the examples.
\<close>

definition toggle_entry :: "byte list \<times> nat" where
  "toggle_entry = (encode (command_text PAUSE_TOGGLE @ [CHR 0x0A]), 0)"

definition paused0 :: emulator where
  "paused0 = launched0\<lparr>gameStatus := paused\<rparr>"

definition coreFullNameMap0 :: "string \<rightharpoonup> string" where
  "coreFullNameMap0 = [''fceumm'' \<mapsto> ''FCEUmm'']"

definition pong_options :: options where
  "pong_options = options0\<lparr>rom := [\<lparr>fileName = ''pong'', fileContent = [1, 2, 3]\<rparr>]\<rparr>"

definition no_file :: "string \<Rightarrow> nat \<Rightarrow> byte list option" where
  "no_file path k = None"

section \<open>Read sources of the poller\<close>

text \<open>
  A read source \<open>rd\<close> gives the outcome of the read of every turn. \<open>prev_success rd j\<close> is
  the last successful read before turn \<open>j\<close>, and the source stabilizes at turn \<open>j\<close> when the
  read of that turn succeeds with the byte length of the previous successful read, not
  zero. \<open>never_there\<close> is a file that is never created, \<open>growing\<close> one that is longer at
  every read, \<open>settles\<close> one that reaches its final length at turn 2, with a failed read
  at turn 3.
\<close>

fun prev_success :: "(nat \<Rightarrow> byte list option) \<Rightarrow> nat \<Rightarrow> byte list option" where
  "prev_success rd 0 = None"
| "prev_success rd (Suc k) = (case rd k of Some b \<Rightarrow> Some b | None \<Rightarrow> prev_success rd k)"

definition stabilizes_at :: "(nat \<Rightarrow> byte list option) \<Rightarrow> nat \<Rightarrow> bool" where
  "stabilizes_at rd j =
     (case (prev_success rd j, rd j) of
        (Some a, Some b) \<Rightarrow> 0 < length a \<and> length a = length b
      | _ \<Rightarrow> False)"

definition never_stabilizes :: "(nat \<Rightarrow> byte list option) \<Rightarrow> nat \<Rightarrow> bool" where
  "never_stabilizes rd n = (\<forall>j < n. \<not> stabilizes_at rd j)"

definition never_there :: "nat \<Rightarrow> byte list option" where
  "never_there k = None"

definition growing :: "nat \<Rightarrow> byte list option" where
  "growing k = Some (replicate (Suc k) 0)"

definition settles :: "nat \<Rightarrow> byte list option" where
  "settles k = (if k = 0 then None else if k = 1 then Some [7] else if k = 3 then None
                else Some [7, 7])"

definition poll_inv :: "(nat \<Rightarrow> byte list option) \<Rightarrow> poll_state \<Rightarrow> bool" where
  "poll_inv rd st =
     (buffer st = prev_success rd (retryTimes st) \<and>
      delays st = map delayTime [0..<retryTimes st])"

section \<open>Configurations for the examples, the lines of the claim\<close>

text \<open>
  \<open>config_example\<close> is the configuration of the spec's example, \<open>config_underscores\<close> one
  whose value holds two underscores in a row. \<open>free_of_uu\<close> says that a string holds no
  two underscores in a row, and an entry is plain when \<open>safe\<close> prints its key and its
  wrapped value as they are, neither holds two underscores in a row, and the value does
  not end with one.
\<close>

definition config_example :: "(string \<times> scalar) list" where
  "config_example = [(''a'', SBool True), (''b'', SNum 4), (''c'', SStr ''x'')]"

definition config_underscores :: "(string \<times> scalar) list" where
  "config_underscores = [(''c'', SStr ''x__y'')]"

text \<open>The line \<open>key = "value"\<close> of the claim, ended by a line feed.\<close>

definition quoted_line :: "string \<times> scalar \<Rightarrow> string" where
  "quoted_line = (\<lambda>(key, v). key @ '' = '' @ [CHR 0x22] @ toString v @ [CHR 0x22, CHR 0x0A])"

fun free_of_uu :: "string \<Rightarrow> bool" where
  "free_of_uu [] = True"
| "free_of_uu [a] = True"
| "free_of_uu (a # b # t) = (\<not> (a = CHR ''_'' \<and> b = CHR ''_'') \<and> free_of_uu (b # t))"

definition plain_entry :: "string \<times> scalar \<Rightarrow> bool" where
  "plain_entry = (\<lambda>(key, v).
     safe key = key \<and> safe (''__'' @ toString v @ ''__'') = ''__'' @ toString v @ ''__''
     \<and> free_of_uu key \<and> free_of_uu (toString v)
     \<and> (toString v = [] \<or> last (toString v) \<noteq> CHR ''_''))"

section \<open>Properties of the command channel\<close>

lemma command_text_ascii: "list_all (\<lambda>c. (of_char c :: nat) < 128) (command_text msg)"
  by (cases msg) simp_all

lemma stdin_times_Suc:
  "stdin_times (Suc n) s =
     (fst (stdin s) # fst (stdin_times n (snd (stdin s))), snd (stdin_times n (snd (stdin s))))"
  by (simp split: prod.splits)

lemma stdin_head_unread:
  "i < length msg \<Longrightarrow>
   stdin (s\<lparr>messageQueue := (msg, i) # rest\<rparr>) =
     (Some (msg ! i), s\<lparr>messageQueue := (msg, Suc i) # rest\<rparr>)"
  by (simp add: stdin_def)

lemma stdin_single_read:
  "stdin (s\<lparr>messageQueue := [(msg, length msg)]\<rparr>) = (None, s\<lparr>messageQueue := []\<rparr>)"
  by (simp add: stdin_def)

lemma stdin_queue_single:
  "i \<le> length msg \<Longrightarrow> n = length msg - i \<Longrightarrow>
   fst (stdin_times (Suc n) (s\<lparr>messageQueue := [(msg, i)]\<rparr>)) = map Some (drop i msg) @ [None]"
proof (induction n arbitrary: i)
  case 0
  then have "i = length msg" by simp
  then show ?case by (simp only: stdin_times_Suc stdin_single_read) simp
next
  case (Suc n)
  then have lt: "i < length msg" and le: "Suc i \<le> length msg" and n: "n = length msg - Suc i"
    by simp_all
  have IH: "fst (stdin_times (Suc n) (s\<lparr>messageQueue := [(msg, Suc i)]\<rparr>)) =
      map Some (drop (Suc i) msg) @ [None]"
    by (rule Suc.IH [OF le n])
  have "fst (stdin_times (Suc (Suc n)) (s\<lparr>messageQueue := [(msg, i)]\<rparr>)) =
      Some (msg ! i) # fst (stdin_times (Suc n) (s\<lparr>messageQueue := [(msg, Suc i)]\<rparr>))"
    by (subst stdin_times_Suc) (simp only: stdin_head_unread [OF lt] fst_conv snd_conv)
  also have "\<dots> = map Some (drop i msg) @ [None]"
    by (simp only: IH) (simp add: Cons_nth_drop_Suc [OF lt, symmetric])
  finally show ?case .
qed

lemma sendCommand_empty:
  "messageQueue s = [] \<Longrightarrow>
   sendCommand msg s = s\<lparr>messageQueue := [(encode (command_text msg @ [CHR 0x0A]), 0)]\<rparr>"
  by (simp add: sendCommand_def)

lemma stdin_times_after_send:
  assumes "messageQueue s = []"
  shows "fst (stdin_times (Suc (Suc (length (command_text msg)))) (sendCommand msg s)) =
         map Some (encode (command_text msg @ [CHR 0x0A])) @ [None]"
proof -
  have len: "Suc (length (command_text msg)) = length (encode (command_text msg @ [CHR 0x0A])) - 0"
    by (simp add: encode_def)
  show ?thesis
    unfolding sendCommand_empty [OF assms]
    using stdin_queue_single [OF _ len, of s] by simp
qed

lemma stdin_times_fst_take:
  "n \<le> m \<Longrightarrow> fst (stdin_times n s) = take n (fst (stdin_times m s))"
proof (induction n arbitrary: m s)
  case 0 show ?case by simp
next
  case (Suc n)
  then obtain m' where m: "m = Suc m'" and le: "n \<le> m'" by (cases m) auto
  show ?case unfolding m stdin_times_Suc using Suc.IH [OF le] by simp
qed

text \<open>
  C1, amended. After \<open>sendCommand('PAUSE_TOGGLE')\<close> on an empty queue, the calls of \<open>stdin\<close>
  return the bytes of \<open>PAUSE_TOGGLE\<close> and of the line feed, in order: the first three are
  the codes of \<open>P\<close>, \<open>A\<close>, \<open>U\<close>, the fourth goes on with \<open>S\<close>. The bytes are 13, not 15:
  after 13 calls the 14th returns \<open>null\<close>.
\<close>

theorem pause_toggle_polled_in_order:
  assumes "messageQueue s = []"
  shows "length (encode (command_text PAUSE_TOGGLE @ [CHR 0x0A])) = 13
     \<and> fst (stdin_times 3 (sendCommand PAUSE_TOGGLE s)) = [Some 80, Some 65, Some 85]
     \<and> fst (stdin_times 14 (sendCommand PAUSE_TOGGLE s)) =
         map Some (encode (command_text PAUSE_TOGGLE @ [CHR 0x0A])) @ [None]
     \<and> fst (stdin_times 14 (sendCommand PAUSE_TOGGLE s)) =
         [Some 80, Some 65, Some 85, Some 83, Some 69, Some 95, Some 84, Some 79, Some 71,
          Some 71, Some 76, Some 69, Some 10, None]"
proof -
  have full: "fst (stdin_times 14 (sendCommand PAUSE_TOGGLE s)) =
         map Some (encode (command_text PAUSE_TOGGLE @ [CHR 0x0A])) @ [None]"
  proof -
    have "(14::nat) = Suc (Suc (length (command_text PAUSE_TOGGLE)))" by simp
    then show ?thesis using stdin_times_after_send [OF assms, of PAUSE_TOGGLE] by (simp only:)
  qed
  have "fst (stdin_times 3 (sendCommand PAUSE_TOGGLE s)) =
      take 3 (fst (stdin_times 14 (sendCommand PAUSE_TOGGLE s)))"
    by (rule stdin_times_fst_take) simp
  with full show ?thesis by (simp add: encode_def)
qed

theorem pause_toggle_polled_in_order_witness:
  "messageQueue (new_Emulator options0) = []
   \<and> fst (stdin_times 3 (sendCommand PAUSE_TOGGLE (new_Emulator options0))) =
       [Some 80, Some 65, Some 85]"
  using pause_toggle_polled_in_order [of "new_Emulator options0"]
  by (simp add: new_Emulator_def)

text \<open>
  C1 as stated fails: the claim has 15 bytes, so that the 14th call of \<open>stdin\<close> would
  still return a byte. It returns \<open>null\<close>, and the encoded command has 13 bytes.
\<close>

theorem pause_toggle_not_fifteen_bytes:
  "fst (stdin_times 14 (sendCommand PAUSE_TOGGLE (new_Emulator options0))) ! 13 = None
   \<and> length (encode (command_text PAUSE_TOGGLE @ [CHR 0x0A])) \<noteq> 15"
  by code_simp

lemma list_all_tl: "list_all P xs \<Longrightarrow> list_all P (tl xs)"
  by (cases xs) simp_all

lemma stdin_queue_inv:
  "behind_front_untouched q \<Longrightarrow>
   behind_front_untouched (snd (stdin_queue q)) \<and>
   delivered [fst (stdin_queue q)] @ pending (snd (stdin_queue q)) = pending q"
proof (induction q rule: stdin_queue.induct)
  case 1
  show ?case by (simp add: behind_front_untouched_def pending_def)
next
  case (2 msg index rest)
  show ?case
  proof (cases "index \<ge> length msg")
    case True
    from "2.prems" have "behind_front_untouched rest"
      by (simp add: behind_front_untouched_def list_all_tl)
    with "2.IH" [OF True] True show ?thesis by (simp add: pending_def)
  next
    case False
    then have lt: "index < length msg" by simp
    with "2.prems" show ?thesis
      by (simp add: behind_front_untouched_def pending_def Cons_nth_drop_Suc)
  qed
qed

lemma sendCommand_inv:
  "behind_front_untouched (messageQueue s) \<Longrightarrow>
   behind_front_untouched (messageQueue (sendCommand msg s)) \<and>
   pending (messageQueue (sendCommand msg s)) =
     pending (messageQueue s) @ encode (command_text msg @ [CHR 0x0A])"
  by (cases "messageQueue s") (simp_all add: sendCommand_def behind_front_untouched_def pending_def)

lemma stdin_inv:
  "behind_front_untouched (messageQueue s) \<Longrightarrow>
   behind_front_untouched (messageQueue (snd (stdin s))) \<and>
   delivered [fst (stdin s)] @ pending (messageQueue (snd (stdin s))) = pending (messageQueue s)"
  using stdin_queue_inv [of "messageQueue s"]
  by (simp add: stdin_def case_prod_beta)

lemma delivered_Cons: "delivered (r # rs) = delivered [r] @ delivered rs"
  by (cases r) simp_all

lemma run_ops_inv:
  "behind_front_untouched (messageQueue s) \<Longrightarrow>
   behind_front_untouched (messageQueue (snd (run_ops ops s))) \<and>
   delivered (fst (run_ops ops s)) @ pending (messageQueue (snd (run_ops ops s))) =
     pending (messageQueue s) @ sent ops"
proof (induction ops s rule: run_ops.induct)
  case (1 s)
  then show ?case by simp
next
  case (2 msg ops s)
  from sendCommand_inv [OF "2.prems", of msg] "2.IH" show ?case by simp
next
  case (3 ops s)
  have s1: "behind_front_untouched (messageQueue (snd (stdin s)))"
    and eq: "delivered [fst (stdin s)] @ pending (messageQueue (snd (stdin s))) = pending (messageQueue s)"
    using stdin_inv [OF "3.prems"] by simp_all
  have run: "run_ops (Poll # ops) s =
      (fst (stdin s) # fst (run_ops ops (snd (stdin s))), snd (run_ops ops (snd (stdin s))))"
    by (simp split: prod.splits)
  have IH: "behind_front_untouched (messageQueue (snd (run_ops ops (snd (stdin s))))) \<and>
     delivered (fst (run_ops ops (snd (stdin s)))) @
       pending (messageQueue (snd (run_ops ops (snd (stdin s))))) =
     pending (messageQueue (snd (stdin s))) @ sent ops"
    using "3.IH" [OF refl prod.collapse s1] .
  have "delivered (fst (run_ops (Poll # ops) s)) @
        pending (messageQueue (snd (run_ops (Poll # ops) s))) =
      delivered [fst (stdin s)] @ (delivered (fst (run_ops ops (snd (stdin s)))) @
        pending (messageQueue (snd (run_ops ops (snd (stdin s))))))"
    unfolding run fst_conv snd_conv
    by (subst delivered_Cons) (simp only: append_assoc)
  also have "\<dots> = delivered [fst (stdin s)] @ (pending (messageQueue (snd (stdin s))) @ sent ops)"
    using IH by (simp only:)
  also have "\<dots> = pending (messageQueue s) @ sent (Poll # ops)"
    using eq by (simp only: append_assoc [symmetric] sent.simps)
  finally show ?case using IH unfolding run snd_conv by (simp only: simp_thms)
qed

text \<open>
  C8. After any run of \<open>sendCommand\<close> and \<open>stdin\<close> calls on a new emulator, every entry of
  the queue behind the front one has cursor 0, so at most the front entry is partly
  consumed; and the bytes returned so far, followed by the bytes still pending in the
  queue, are the bytes of the commands in the order they were sent.
\<close>

theorem queue_front_only_in_progress:
  "behind_front_untouched (messageQueue (snd (run_ops ops (new_Emulator os)))) \<and>
   delivered (fst (run_ops ops (new_Emulator os))) @
     pending (messageQueue (snd (run_ops ops (new_Emulator os)))) = sent ops"
  using run_ops_inv [of "new_Emulator os" ops]
  by (simp add: new_Emulator_def behind_front_untouched_def pending_def)

theorem queue_front_only_in_progress_witness:
  "fst (run_ops [Send RESET, Poll, Send PAUSE_TOGGLE, Poll, Poll] (new_Emulator options0)) =
     [Some 82, Some 69, Some 83]
   \<and> map snd (messageQueue (snd (run_ops [Send RESET, Poll, Send PAUSE_TOGGLE, Poll, Poll]
        (new_Emulator options0)))) = [3, 0]
   \<and> behind_front_untouched (messageQueue (snd (run_ops
        [Send RESET, Poll, Send PAUSE_TOGGLE, Poll, Poll] (new_Emulator options0))))"
  using queue_front_only_in_progress [of "[Send RESET, Poll, Send PAUSE_TOGGLE, Poll, Poll]" options0]
  by code_simp

section \<open>Properties of the lifecycle controller\<close>

lemma pause_queue:
  "messageQueue (pause s) =
     messageQueue s @ (if gameStatus s = running then [toggle_entry] else [])"
  by (simp add: pause_def sendCommand_def toggle_entry_def)

lemma resume_queue:
  "messageQueue (resume s) =
     messageQueue s @ (if gameStatus s = paused then [toggle_entry] else [])"
  by (simp add: resume_def sendCommand_def toggle_entry_def)

lemma pause_status: "gameStatus (pause s) = paused"
  by (simp add: pause_def sendCommand_def)

lemma resume_status: "gameStatus (resume s) = running"
  by (simp add: resume_def sendCommand_def)

text \<open>
  C4. \<open>pause\<close> called with status \<open>paused\<close> sends nothing, so a second \<open>pause\<close> right
  after a first never adds to the queue, and from status \<open>running\<close> the two calls together
  send the pause command once. Whenever \<open>pause\<close> or \<open>resume\<close> sends anything, it is the one
  pause command, and the status goes from \<open>running\<close> to \<open>paused\<close>, or from \<open>paused\<close> to
  \<open>running\<close>. \<open>restart\<close> sends the reset command, and the pause command after it when the
  status is \<open>paused\<close>.
\<close>

theorem pause_toggle_sent_only_on_change:
  "(gameStatus s = paused \<longrightarrow> messageQueue (pause s) = messageQueue s)
   \<and> messageQueue (pause (pause s)) = messageQueue (pause s)
   \<and> (gameStatus s = running \<longrightarrow>
        messageQueue (pause (pause s)) = messageQueue s @ [toggle_entry])
   \<and> (messageQueue (pause s) \<noteq> messageQueue s \<longrightarrow>
        gameStatus s = running \<and> gameStatus (pause s) = paused
        \<and> messageQueue (pause s) = messageQueue s @ [toggle_entry])
   \<and> (messageQueue (resume s) \<noteq> messageQueue s \<longrightarrow>
        gameStatus s = paused \<and> gameStatus (resume s) = running
        \<and> messageQueue (resume s) = messageQueue s @ [toggle_entry])
   \<and> messageQueue (restart s) =
        messageQueue s @ [(encode (command_text RESET @ [CHR 0x0A]), 0)] @
        (if gameStatus s = paused then [toggle_entry] else [])
   \<and> gameStatus (restart s) = running"
  by (simp add: pause_queue resume_queue pause_status resume_status restart_def)
    (simp add: sendCommand_def)

theorem pause_toggle_sent_only_on_change_witness:
  "gameStatus paused0 = paused \<and> messageQueue (pause paused0) = messageQueue paused0
   \<and> gameStatus launched0 = running
   \<and> messageQueue (pause (pause launched0)) = [toggle_entry]
   \<and> messageQueue (pause launched0) \<noteq> messageQueue launched0
   \<and> messageQueue (resume paused0) \<noteq> messageQueue paused0
   \<and> gameStatus (resume paused0) = running"
  using pause_toggle_sent_only_on_change [of paused0]
    pause_toggle_sent_only_on_change [of launched0]
  by (simp add: paused0_def launched0_def new_Emulator_def pause_queue resume_queue
      pause_status resume_status)

text \<open>
  C3 as stated fails: \<open>pause\<close> called after \<open>exit\<close> on a running emulator throws nothing
  and sends the pause command.
\<close>

theorem pause_after_exit_sends_toggle:
  "processStatus (exit 0 launched0) = Some terminated
   \<and> messageQueue (exit 0 launched0) = []
   \<and> messageQueue (pause (exit 0 launched0)) = [toggle_entry]
   \<and> gameStatus (pause (exit 0 launched0)) = paused"
  by (simp add: exit_def cleanupDOM_def launched0_def new_Emulator_def pause_def
      sendCommand_def toggle_entry_def)

text \<open>
  C3, amended. \<open>exit\<close> records \<open>terminated\<close> in \<open>processStatus\<close>, a field no method reads:
  \<open>pause\<close>, \<open>resume\<close>, \<open>restart\<close> and \<open>sendCommand\<close> called after \<open>exit\<close> do to the queue
  and the status what they do before it, and \<open>resize\<close> calls the module when it is set; the
  only error is the \<open>TypeError\<close> of \<open>resize\<close> on an emulator whose module was never set.
\<close>

theorem operations_after_exit_still_run:
  "processStatus (exit code s) = Some terminated
   \<and> pause (exit code s) = exit code (pause s)
   \<and> resume (exit code s) = exit code (resume s)
   \<and> restart (exit code s) = exit code (restart s)
   \<and> sendCommand msg (exit code s) = exit code (sendCommand msg s)
   \<and> resize w h (exit code s) =
       (if emscripten s
        then Inr ((exit code s)\<lparr>calls := calls (exit code s) @ [SetCanvasSize w h]\<rparr>)
        else Inl TypeError)"
  by (simp add: exit_def cleanupDOM_def pause_def resume_def restart_def
      sendCommand_def resize_def Let_def)

text \<open>
  C10. \<open>saveState\<close> on an emulator whose module is not set fails with the \<open>TypeError\<close>
  that \<open>clearStateFile\<close> throws, and no call of \<open>saveState\<close> returns the \<open>undefined\<close> of
  the guard behind it.
\<close>

theorem saveState_before_instantiation:
  "(\<not> emscripten s \<longrightarrow>
      clearStateFile s = Inl TypeError \<and> saveState coreFullNameMap readFile s = Inl TypeError)
   \<and> saveState coreFullNameMap readFile s \<noteq> Inr (None, s')"
  by (simp add: saveState_def clearStateFile_def Let_def split: sum.splits)

theorem saveState_before_instantiation_witness:
  "\<not> emscripten (new_Emulator options0)
   \<and> clearStateFile (new_Emulator options0) = Inl TypeError
   \<and> saveState coreFullNameMap0 no_file (new_Emulator options0) = Inl TypeError"
  using saveState_before_instantiation [of "new_Emulator options0" coreFullNameMap0 no_file]
  by (simp add: new_Emulator_def)

section \<open>Properties of the path derivation\<close>

lemma lastIndexOf_absent: "c \<notin> set t \<Longrightarrow> lastIndexOf c t = - 1"
  by (induction t) (auto simp: Let_def)

lemma lastIndexOf_last:
  "c \<notin> set ext \<Longrightarrow> lastIndexOf c (base @ c # ext) = int (length base)"
  by (induction base) (auto simp: Let_def lastIndexOf_absent)

lemma slice_js_prefix: "slice_js 0 (int (length base)) (base @ rest) = base"
  by (simp add: slice_js_def Let_def)

lemma slice_js_drop_last: "slice_js 0 (- 1) t = butlast t"
  by (simp add: slice_js_def Let_def butlast_conv_take nat_diff_distrib' max_def)


lemma stateFileName_path:
  "rom (opts s) = r # rs \<Longrightarrow>
   stateFileName m s =
     Inr (raUserdataDir @ ''states/'' @ coreFullName m (core_name (opts s)) @ ''/'' @
          slice_js 0 (lastIndexOf (CHR ''.'') (fileName r)) (fileName r) @ ''.state'')"
  by (simp add: stateFileName_def)

text \<open>
  C6. The state path is built from the full name of the core and the name of the first
  ROM only. A name \<open>base.ext\<close>, with no dot in \<open>ext\<close>, gives
  \<open>states/<coreFullName>/base.state\<close> under the user data directory, so \<open>pong1k.nes\<close>
  gives \<open>pong1k.state\<close>; the thumbnail path is the state path followed by \<open>.png\<close>; and two
  emulators with the same core name and first ROM name have the same paths.
\<close>

theorem state_path_derivation:
  assumes "rom (opts s) = r # rs"
  shows "(\<forall>base ext. fileName r = base @ CHR ''.'' # ext \<and> CHR ''.'' \<notin> set ext \<longrightarrow>
            stateFileName m s =
              Inr (''/home/web_user/retroarch/userdata/states/'' @
                   coreFullName m (core_name (opts s)) @ ''/'' @ base @ ''.state''))
     \<and> (fileName r = ''pong1k.nes'' \<longrightarrow>
            stateFileName m s =
              Inr (''/home/web_user/retroarch/userdata/states/'' @
                   coreFullName m (core_name (opts s)) @ ''/pong1k.state'')
          \<and> stateThumbnailFileName m s =
              Inr (''/home/web_user/retroarch/userdata/states/'' @
                   coreFullName m (core_name (opts s)) @ ''/pong1k.state.png''))
     \<and> (\<forall>p. stateFileName m s = Inr p \<longrightarrow> stateThumbnailFileName m s = Inr (p @ ''.png''))
     \<and> (\<forall>s' r' rs'. rom (opts s') = r' # rs' \<and> fileName r' = fileName r
            \<and> coreFullName m (core_name (opts s')) = coreFullName m (core_name (opts s)) \<longrightarrow>
            stateFileName m s' = stateFileName m s
            \<and> stateThumbnailFileName m s' = stateThumbnailFileName m s)"
proof (intro conjI allI impI)
  fix base ext
  assume "fileName r = base @ CHR ''.'' # ext \<and> CHR ''.'' \<notin> set ext"
  then show "stateFileName m s =
      Inr (''/home/web_user/retroarch/userdata/states/'' @
           coreFullName m (core_name (opts s)) @ ''/'' @ base @ ''.state'')"
    by (simp add: stateFileName_path [OF assms] lastIndexOf_last slice_js_prefix
        raUserdataDir_def)
next
  assume pong: "fileName r = ''pong1k.nes''"
  have base: "slice_js 0 (lastIndexOf (CHR ''.'') ''pong1k.nes'') ''pong1k.nes'' = ''pong1k''"
    by code_simp
  show st: "stateFileName m s =
      Inr (''/home/web_user/retroarch/userdata/states/'' @
           coreFullName m (core_name (opts s)) @ ''/pong1k.state'')"
    by (simp only: stateFileName_path [OF assms] pong base) (simp add: raUserdataDir_def)
  show "stateThumbnailFileName m s =
      Inr (''/home/web_user/retroarch/userdata/states/'' @
           coreFullName m (core_name (opts s)) @ ''/pong1k.state.png'')"
    by (simp add: stateThumbnailFileName_def st)
next
  fix p assume "stateFileName m s = Inr p"
  then show "stateThumbnailFileName m s = Inr (p @ ''.png'')"
    by (simp add: stateThumbnailFileName_def)
next
  fix s' :: emulator and r' :: asset and rs' :: "asset list"
  assume h: "rom (opts s') = r' # rs' \<and> fileName r' = fileName r
     \<and> coreFullName m (core_name (opts s')) = coreFullName m (core_name (opts s))"
  then have r': "rom (opts s') = r' # rs'" by simp
  show st: "stateFileName m s' = stateFileName m s"
    using h by (simp add: stateFileName_path [OF assms] stateFileName_path [OF r'])
  show "stateThumbnailFileName m s' = stateThumbnailFileName m s"
    by (simp add: stateThumbnailFileName_def st)
qed

theorem state_path_derivation_witness:
  "rom (opts launched0) = [\<lparr>fileName = ''pong1k.nes'', fileContent = [1, 2, 3]\<rparr>]
   \<and> stateFileName coreFullNameMap0 launched0 =
       Inr ''/home/web_user/retroarch/userdata/states/FCEUmm/pong1k.state''
   \<and> stateThumbnailFileName coreFullNameMap0 launched0 =
       Inr ''/home/web_user/retroarch/userdata/states/FCEUmm/pong1k.state.png''
   \<and> stateFileName coreFullNameMap0 (pause (sendCommand RESET launched0)) =
       stateFileName coreFullNameMap0 launched0"
proof -
  have r: "rom (opts launched0) = [\<lparr>fileName = ''pong1k.nes'', fileContent = [1, 2, 3]\<rparr>]"
    by (simp add: launched0_def new_Emulator_def options0_def)
  have r': "rom (opts (pause (sendCommand RESET launched0))) =
      [\<lparr>fileName = ''pong1k.nes'', fileContent = [1, 2, 3]\<rparr>]"
    by (simp add: launched0_def new_Emulator_def options0_def pause_def sendCommand_def)
  have c: "coreFullName coreFullNameMap0 (core_name (opts launched0)) = ''FCEUmm''"
    "coreFullName coreFullNameMap0 (core_name (opts (pause (sendCommand RESET launched0)))) =
       ''FCEUmm''"
    by (simp_all add: launched0_def new_Emulator_def options0_def pause_def sendCommand_def
        coreFullName_def coreFullNameMap0_def)
  show ?thesis
    using state_path_derivation [OF r, of coreFullNameMap0] r r' c by simp
qed

text \<open>
  C9. When the name of the first ROM holds no dot, \<open>lastIndexOf\<close> gives \<open>-1\<close> and the base
  name is the name without its last character: the ROM \<open>pong\<close> gives a state path that
  ends in \<open>pon.state\<close>.
\<close>

theorem state_path_without_dot:
  assumes "rom (opts s) = r # rs" and "CHR ''.'' \<notin> set (fileName r)"
  shows "stateFileName m s =
           Inr (''/home/web_user/retroarch/userdata/states/'' @
                coreFullName m (core_name (opts s)) @ ''/'' @ butlast (fileName r) @ ''.state'')
     \<and> (fileName r = ''pong'' \<longrightarrow>
           stateFileName m s =
             Inr (''/home/web_user/retroarch/userdata/states/'' @
                  coreFullName m (core_name (opts s)) @ ''/pon.state''))"
  using assms(2)
  by (auto simp: stateFileName_path [OF assms(1)] lastIndexOf_absent slice_js_drop_last
      raUserdataDir_def)

theorem state_path_without_dot_witness:
  "rom (opts (new_Emulator pong_options)) = [\<lparr>fileName = ''pong'', fileContent = [1, 2, 3]\<rparr>]
   \<and> CHR ''.'' \<notin> set ''pong''
   \<and> stateFileName coreFullNameMap0 (new_Emulator pong_options) =
       Inr ''/home/web_user/retroarch/userdata/states/FCEUmm/pon.state''"
proof -
  have r: "rom (opts (new_Emulator pong_options)) =
      [\<lparr>fileName = ''pong'', fileContent = [1, 2, 3]\<rparr>]"
    by (simp add: new_Emulator_def pong_options_def options0_def)
  have d: "CHR ''.'' \<notin> set (fileName \<lparr>fileName = ''pong'', fileContent = [1, 2, 3::byte]\<rparr>)"
    by simp
  have c: "coreFullName coreFullNameMap0 (core_name (opts (new_Emulator pong_options))) =
      ''FCEUmm''"
    by (simp add: new_Emulator_def pong_options_def options0_def coreFullName_def
        coreFullNameMap0_def)
  show ?thesis
    using state_path_without_dot [OF r d, of coreFullNameMap0] r c by simp
qed

section \<open>Properties of the file-ready poller\<close>

lemma poll_step_facts:
  assumes "poll_inv rd st" and "\<not> isFinished st"
  shows "poll_inv rd (poll_step rd st)"
    and "retryTimes (poll_step rd st) = Suc (retryTimes st)"
    and "isFinished (poll_step rd st) = stabilizes_at rd (retryTimes st)"
  using assms
  by (auto simp: poll_inv_def poll_step_def stabilizes_at_def Let_def split: option.splits)

lemma poll_loop_char:
  assumes "poll_inv rd st" and "\<not> isFinished st"
  shows "poll_inv rd (poll_loop N rd st)
     \<and> (isFinished (poll_loop N rd st) \<longrightarrow>
          retryTimes st < retryTimes (poll_loop N rd st)
          \<and> retryTimes (poll_loop N rd st) \<le> Suc N
          \<and> stabilizes_at rd (retryTimes (poll_loop N rd st) - 1))
     \<and> (\<not> isFinished (poll_loop N rd st) \<longrightarrow>
          retryTimes (poll_loop N rd st) = max (retryTimes st) (Suc N))
     \<and> (\<forall>j. retryTimes st \<le> j \<and> Suc j < retryTimes (poll_loop N rd st) \<longrightarrow>
          \<not> stabilizes_at rd j)"
  using assms
proof (induction N rd st rule: poll_loop.induct)
  case (1 N rd st)
  show ?case
  proof (cases "retryTimes st \<le> N")
    case False
    then have "poll_loop N rd st = st" by (simp add: poll_loop.simps)
    with False "1.prems" show ?thesis by (auto simp: max_def)
  next
    case True
    let ?st1 = "poll_step rd st"
    have unfold: "poll_loop N rd st = poll_loop N rd ?st1"
      using True "1.prems" by (subst poll_loop.simps) simp
    have inv1: "poll_inv rd ?st1" and rt1: "retryTimes ?st1 = Suc (retryTimes st)"
      and fin1: "isFinished ?st1 = stabilizes_at rd (retryTimes st)"
      using poll_step_facts [OF "1.prems"] by simp_all
    show ?thesis
    proof (cases "isFinished ?st1")
      case fin: True
      then have stop: "poll_loop N rd ?st1 = ?st1" by (subst poll_loop.simps) simp
      show ?thesis
        unfolding unfold stop
        using inv1 rt1 fin1 fin True by auto
    next
      case nfin: False
      have IH: "poll_inv rd (poll_loop N rd ?st1)
         \<and> (isFinished (poll_loop N rd ?st1) \<longrightarrow>
              retryTimes ?st1 < retryTimes (poll_loop N rd ?st1)
              \<and> retryTimes (poll_loop N rd ?st1) \<le> Suc N
              \<and> stabilizes_at rd (retryTimes (poll_loop N rd ?st1) - 1))
         \<and> (\<not> isFinished (poll_loop N rd ?st1) \<longrightarrow>
              retryTimes (poll_loop N rd ?st1) = max (retryTimes ?st1) (Suc N))
         \<and> (\<forall>j. retryTimes ?st1 \<le> j \<and> Suc j < retryTimes (poll_loop N rd ?st1) \<longrightarrow>
              \<not> stabilizes_at rd j)"
        using "1.IH" [OF _ inv1 nfin] True "1.prems" by simp
      have here: "\<not> stabilizes_at rd (retryTimes st)" using fin1 nfin by simp
      have no_earlier: "\<not> stabilizes_at rd j"
        if "retryTimes st \<le> j \<and> Suc j < retryTimes (poll_loop N rd ?st1)" for j
      proof (cases "j = retryTimes st")
        case True
        with here show ?thesis by simp
      next
        case False
        with that rt1 have "retryTimes ?st1 \<le> j \<and> Suc j < retryTimes (poll_loop N rd ?st1)"
          by simp
        with IH show ?thesis by blast
      qed
      have rest: "poll_inv rd (poll_loop N rd ?st1)
         \<and> (isFinished (poll_loop N rd ?st1) \<longrightarrow>
              retryTimes st < retryTimes (poll_loop N rd ?st1)
              \<and> retryTimes (poll_loop N rd ?st1) \<le> Suc N
              \<and> stabilizes_at rd (retryTimes (poll_loop N rd ?st1) - 1))
         \<and> (\<not> isFinished (poll_loop N rd ?st1) \<longrightarrow>
              retryTimes (poll_loop N rd ?st1) = max (retryTimes st) (Suc N))"
        using IH rt1 True by (auto simp: max_def)
      show ?thesis
        unfolding unfold
        using rest no_earlier by blast
    qed
  qed
qed

lemma poll_init_inv: "poll_inv rd poll_init \<and> \<not> isFinished poll_init \<and> retryTimes poll_init = 0"
  by (simp add: poll_inv_def poll_init_def)

lemma prev_success_Some:
  "prev_success rd j = Some a \<Longrightarrow>
   \<exists>i < j. rd i = Some a \<and> (\<forall>k. i < k \<and> k < j \<longrightarrow> rd k = None)"
proof (induction j)
  case 0
  then show ?case by simp
next
  case (Suc j)
  show ?case
  proof (cases "rd j")
    case None
    with Suc obtain i where "i < j" "rd i = Some a" "\<forall>k. i < k \<and> k < j \<longrightarrow> rd k = None"
      by auto
    with None show ?thesis
      by (intro exI [of _ i]) (auto simp: less_Suc_eq)
  next
    case (Some b)
    with Suc.prems show ?thesis by (intro exI [of _ j]) auto
  qed
qed


lemma poll_from_init:
  "delays (poll_loop N rd poll_init) = map delayTime [0..<retryTimes (poll_loop N rd poll_init)]
   \<and> buffer (poll_loop N rd poll_init) = prev_success rd (retryTimes (poll_loop N rd poll_init))
   \<and> (isFinished (poll_loop N rd poll_init) \<longrightarrow>
        0 < retryTimes (poll_loop N rd poll_init)
        \<and> retryTimes (poll_loop N rd poll_init) \<le> Suc N
        \<and> stabilizes_at rd (retryTimes (poll_loop N rd poll_init) - 1))
   \<and> (\<not> isFinished (poll_loop N rd poll_init) \<longrightarrow> retryTimes (poll_loop N rd poll_init) = Suc N)
   \<and> (\<forall>j. Suc j < retryTimes (poll_loop N rd poll_init) \<longrightarrow> \<not> stabilizes_at rd j)"
  using poll_loop_char [of rd poll_init N] poll_init_inv [of rd]
  by (simp add: poll_inv_def)

lemma poll_never_stabilizes:
  assumes "never_stabilizes rd (Suc N)"
  shows "\<not> isFinished (poll_loop N rd poll_init)
     \<and> retryTimes (poll_loop N rd poll_init) = Suc N
     \<and> length (delays (poll_loop N rd poll_init)) = Suc N"
proof -
  let ?st = "poll_loop N rd poll_init"
  have nf: "\<not> isFinished ?st"
  proof
    assume fin: "isFinished ?st"
    with poll_from_init [of N rd]
    have "retryTimes ?st - 1 < Suc N" and "stabilizes_at rd (retryTimes ?st - 1)" by auto
    with assms show False by (simp add: never_stabilizes_def)
  qed
  with poll_from_init [of N rd] have "retryTimes ?st = Suc N"
    and "delays ?st = map delayTime [0..<retryTimes ?st]" by simp_all
  with nf show ?thesis by simp
qed

lemma never_there_never_stabilizes: "never_stabilizes never_there n"
  by (simp add: never_stabilizes_def stabilizes_at_def never_there_def split: option.splits)

text \<open>
  C2, amended. With the module set and a read source that does not stabilize at any of
  the turns \<open>0, \<dots>, N\<close>, the poller with \<open>maxRetries = N\<close> fails with the timeout error
  after exactly \<open>N + 1\<close> reads: the loop runs while \<open>retryTimes <= maxRetries\<close>, from 0.
  With the constant 30 of the source that is 31 reads.
\<close>

theorem poller_times_out_after_all_attempts:
  assumes "emscripten s" and "never_stabilizes rd (Suc N)"
  shows "fst (waitForEmscriptenFile_max N rd s) = Inl FsTimeout
     \<and> retryTimes (snd (waitForEmscriptenFile_max N rd s)) = Suc N
     \<and> length (delays (snd (waitForEmscriptenFile_max N rd s))) = Suc N"
  using poll_never_stabilizes [OF assms(2)] assms(1)
  by (simp add: waitForEmscriptenFile_max_def Let_def)

theorem poller_times_out_after_all_attempts_witness:
  "emscripten launched0 \<and> never_stabilizes growing (Suc 30)
   \<and> fst (waitForEmscriptenFile growing launched0) = Inl FsTimeout
   \<and> retryTimes (snd (waitForEmscriptenFile growing launched0)) = 31"
proof -
  have e: "emscripten launched0" by (simp add: launched0_def new_Emulator_def)
  have prev: "prev_success growing j = Some a \<Longrightarrow> length a \<le> j" for j a
    by (induction j) (auto simp: growing_def)
  have n: "never_stabilizes growing (Suc 30)"
    unfolding never_stabilizes_def stabilizes_at_def
    using prev by (fastforce simp: growing_def split: option.splits)
  show ?thesis
    using poller_times_out_after_all_attempts [OF e n] e n
    by (simp add: waitForEmscriptenFile_def)
qed

text \<open>
  C2 as stated fails: on a file that is never created, the poller with \<open>maxRetries = 3\<close>
  reads 4 times before it fails, and the poller of the source, with 30, reads 31 times.
\<close>

theorem poller_makes_one_more_attempt:
  "fst (waitForEmscriptenFile_max 3 never_there launched0) = Inl FsTimeout
   \<and> retryTimes (snd (waitForEmscriptenFile_max 3 never_there launched0)) = 4
   \<and> retryTimes (snd (waitForEmscriptenFile never_there launched0)) = 31"
  using poll_never_stabilizes [OF never_there_never_stabilizes, of 3]
    poll_never_stabilizes [OF never_there_never_stabilizes, of 30]
  by (simp add: waitForEmscriptenFile_def waitForEmscriptenFile_max_def launched0_def
      new_Emulator_def Let_def)

text \<open>
  C5. The times waited are \<open>min (100 * 2 ^ k) 1000\<close> before the read of turn \<open>k\<close>, counted
  from 0. When the poller returns bytes, they are those of the last read, at a turn \<open>j\<close>,
  and an earlier turn \<open>i\<close> read the same number of bytes, not zero, with no successful
  read in between: one read alone never ends the poll.
\<close>

theorem poller_stable_after_two_equal_reads:
  "delays (snd (waitForEmscriptenFile_max N rd s)) =
     map (\<lambda>k. min (100 * 2 ^ k) 1000) [0..<retryTimes (snd (waitForEmscriptenFile_max N rd s))]
   \<and> (\<forall>r. fst (waitForEmscriptenFile_max N rd s) = Inr r \<longrightarrow>
        (\<exists>i j a b. i < j \<and> j \<le> N \<and> rd i = Some a \<and> rd j = Some b
           \<and> (\<forall>k. i < k \<and> k < j \<longrightarrow> rd k = None)
           \<and> 0 < length a \<and> length a = length b
           \<and> r = Some b \<and> retryTimes (snd (waitForEmscriptenFile_max N rd s)) = Suc j))"
proof (cases "emscripten s")
  case False
  then show ?thesis by (simp add: waitForEmscriptenFile_max_def poll_init_def)
next
  case True
  let ?st = "poll_loop N rd poll_init"
  have res: "waitForEmscriptenFile_max N rd s =
      (if \<not> isFinished ?st then Inl FsTimeout else Inr (buffer ?st), ?st)"
    using True by (simp add: waitForEmscriptenFile_max_def Let_def)
  have dl: "delays ?st = map (\<lambda>k. min (100 * 2 ^ k) 1000) [0..<retryTimes ?st]"
    using poll_from_init [of N rd] by (simp add: delayTime_def [abs_def])
  have ok: "\<exists>i j a b. i < j \<and> j \<le> N \<and> rd i = Some a \<and> rd j = Some b
           \<and> (\<forall>k. i < k \<and> k < j \<longrightarrow> rd k = None)
           \<and> 0 < length a \<and> length a = length b
           \<and> buffer ?st = Some b \<and> retryTimes ?st = Suc j" if fin: "isFinished ?st"
  proof -
    from fin poll_from_init [of N rd]
    obtain j where j: "retryTimes ?st = Suc j" "j \<le> N" "stabilizes_at rd j"
      and buf: "buffer ?st = prev_success rd (Suc j)"
      by (cases "retryTimes ?st") auto
    from j(3) obtain a b where ab: "prev_success rd j = Some a" "rd j = Some b"
      "0 < length a" "length a = length b"
      by (cases "prev_success rd j"; cases "rd j") (simp_all add: stabilizes_at_def)
    from prev_success_Some [OF ab(1)] obtain i where
      i: "i < j" "rd i = Some a" "\<forall>k. i < k \<and> k < j \<longrightarrow> rd k = None" by blast
    from buf ab(2) have "buffer ?st = Some b" by simp
    with i j ab show ?thesis by blast
  qed
  show ?thesis
    unfolding res using dl ok by (auto split: if_splits)
qed

theorem poller_stable_after_two_equal_reads_witness:
  "fst (waitForEmscriptenFile settles launched0) = Inr (Some [7, 7])
   \<and> delays (snd (waitForEmscriptenFile settles launched0)) = [100, 200, 400, 800, 1000]
   \<and> retryTimes (snd (waitForEmscriptenFile settles launched0)) = 5
   \<and> (\<exists>i j a b. i < j \<and> j \<le> 30 \<and> settles i = Some a \<and> settles j = Some b
        \<and> (\<forall>k. i < k \<and> k < j \<longrightarrow> settles k = None)
        \<and> 0 < length a \<and> length a = length b \<and> Some [7, 7] = Some b
        \<and> retryTimes (snd (waitForEmscriptenFile settles launched0)) = Suc j)"
proof -
  have v: "fst (waitForEmscriptenFile settles launched0) = Inr (Some [7, 7])"
    "delays (snd (waitForEmscriptenFile settles launched0)) = [100, 200, 400, 800, 1000]"
    "retryTimes (snd (waitForEmscriptenFile settles launched0)) = 5"
    by (simp_all add: waitForEmscriptenFile_def waitForEmscriptenFile_max_def launched0_def
        new_Emulator_def poll_loop.simps poll_step_def poll_init_def settles_def Let_def
        delayTime_def)
  from poller_stable_after_two_equal_reads [of 30 settles launched0] v show ?thesis
    by (simp add: waitForEmscriptenFile_def)
qed

section \<open>Properties of the config serializer\<close>

lemma replaceAll_uu_Nil [simp]: "replaceAll ''__'' rep [] = []"
  by (simp add: replaceAll.simps)

lemma replaceAll_uu_single [simp]: "replaceAll ''__'' rep [a] = [a]"
  by (simp add: replaceAll.simps)

lemma replaceAll_uu_Cons2 [simp]:
  "replaceAll ''__'' rep (a # b # t) =
     (if a = CHR ''_'' \<and> b = CHR ''_'' then rep @ replaceAll ''__'' rep t
      else a # replaceAll ''__'' rep (b # t))"
  by (subst replaceAll.simps) auto

lemma replaceAll_uu_skip:
  "free_of_uu t \<Longrightarrow> t = [] \<or> last t \<noteq> CHR ''_'' \<or> u = [] \<or> hd u \<noteq> CHR ''_'' \<Longrightarrow>
   replaceAll ''__'' rep (t @ u) = t @ replaceAll ''__'' rep u"
proof (induction t rule: free_of_uu.induct)
  case 1
  then show ?case by simp
next
  case (2 a)
  then show ?case by (cases u) auto
next
  case (3 a b t)
  then show ?case by auto
qed

lemma free_of_uu_append:
  "free_of_uu t \<Longrightarrow> free_of_uu u \<Longrightarrow>
   t = [] \<or> last t \<noteq> CHR ''_'' \<or> u = [] \<or> hd u \<noteq> CHR ''_'' \<Longrightarrow>
   free_of_uu (t @ u)"
proof (induction t rule: free_of_uu.induct)
  case 1
  then show ?case by simp
next
  case (2 a)
  then show ?case by (cases u) auto
next
  case (3 a b t)
  then show ?case by auto
qed

lemma replaceAll_line:
  assumes "free_of_uu key" and "free_of_uu t" and "t = [] \<or> last t \<noteq> CHR ''_''"
  shows "replaceAll ''__'' rep (key @ '' = '' @ (''__'' @ t @ ''__'') @ [CHR 0x0A] @ rest) =
         key @ '' = '' @ rep @ t @ rep @ [CHR 0x0A] @ replaceAll ''__'' rep rest"
proof -
  have k: "free_of_uu (key @ '' = '')"
    using assms(1) by (intro free_of_uu_append) simp_all
  have "replaceAll ''__'' rep ((key @ '' = '') @ (''__'' @ t @ ''__'' @ [CHR 0x0A] @ rest)) =
      (key @ '' = '') @ replaceAll ''__'' rep (''__'' @ t @ ''__'' @ [CHR 0x0A] @ rest)"
    by (rule replaceAll_uu_skip [OF k]) simp
  also have "replaceAll ''__'' rep (''__'' @ t @ ''__'' @ [CHR 0x0A] @ rest) =
      rep @ replaceAll ''__'' rep (t @ (''__'' @ [CHR 0x0A] @ rest))"
    by simp
  also have "replaceAll ''__'' rep (t @ (''__'' @ [CHR 0x0A] @ rest)) =
      t @ replaceAll ''__'' rep (''__'' @ [CHR 0x0A] @ rest)"
    using assms(3) by (intro replaceAll_uu_skip [OF assms(2)]) auto
  also have "replaceAll ''__'' rep (''__'' @ [CHR 0x0A] @ rest) =
      rep @ replaceAll ''__'' rep ([CHR 0x0A] @ rest)"
    by simp
  also have "replaceAll ''__'' rep ([CHR 0x0A] @ rest) = [CHR 0x0A] @ replaceAll ''__'' rep rest"
    by (rule replaceAll_uu_skip) simp_all
  finally show ?thesis by simp
qed

lemma config_plain_entries_quoted:
  "list_all plain_entry config \<Longrightarrow> configContent config = concat (map quoted_line config)"
  unfolding configContent_def
proof (induction config)
  case Nil
  show ?case by (simp add: wrap_config_def ini_stringify_def)
next
  case (Cons e config)
  obtain key v where e: "e = (key, v)" by (cases e)
  from Cons.prems e have p: "safe key = key"
    "safe (''__'' @ toString v @ ''__'') = ''__'' @ toString v @ ''__''"
    "free_of_uu key" "free_of_uu (toString v)" "toString v = [] \<or> last (toString v) \<noteq> CHR ''_''"
    and rest: "list_all plain_entry config"
    by (simp_all add: plain_entry_def)
  have "ini_stringify (wrap_config (e # config)) =
      key @ '' = '' @ (''__'' @ toString v @ ''__'') @ [CHR 0x0A] @ ini_stringify (wrap_config config)"
    using p(1,2) by (simp add: e wrap_config_def ini_stringify_def)
  then show ?case
    using replaceAll_line [OF p(3,4,5)] Cons.IH [OF rest]
    by (simp add: e quoted_line_def)
qed

text \<open>
  The example of the spec: a boolean, a number and a string are each written between
  double quotes, one line per entry.
\<close>

lemma config_example_quoted:
  "list_all plain_entry config_example
   \<and> configContent config_example =
       ''a = '' @ [CHR 0x22] @ ''true'' @ [CHR 0x22, CHR 0x0A] @
       ''b = '' @ [CHR 0x22] @ ''4'' @ [CHR 0x22, CHR 0x0A] @
       ''c = '' @ [CHR 0x22] @ ''x'' @ [CHR 0x22, CHR 0x0A]"
proof -
  have p: "list_all plain_entry config_example" by code_simp
  have "concat (map quoted_line config_example) =
       ''a = '' @ [CHR 0x22] @ ''true'' @ [CHR 0x22, CHR 0x0A] @
       ''b = '' @ [CHR 0x22] @ ''4'' @ [CHR 0x22, CHR 0x0A] @
       ''c = '' @ [CHR 0x22] @ ''x'' @ [CHR 0x22, CHR 0x0A]"
    by code_simp
  with config_plain_entries_quoted [OF p] p show ?thesis by simp
qed

text \<open>
  C7 does not hold for every configuration. The quotes are made by writing two
  underscores around every value and replacing every pair of underscores of the whole
  text afterwards, so the pair inside the value \<open>x__y\<close> becomes a quote as well: the line
  written for the entry \<open>c\<close> is \<open>c = "x"y"\<close>, not \<open>c = "x__y"\<close>.
\<close>

theorem config_value_with_underscores_mangled:
  "configContent config_underscores =
     ''c = '' @ [CHR 0x22] @ ''x'' @ [CHR 0x22] @ ''y'' @ [CHR 0x22, CHR 0x0A]
   \<and> configContent config_underscores \<noteq> concat (map quoted_line config_underscores)"
  by code_simp

end
